theory Spec2Isabelle
  imports Main
begin

unbundle bit_operations_syntax

section \<open>The self-cloning guard of runc's nsenter (cloned\_binary.c)\<close>

text \<open>
  The development embeds \<^verbatim>\<open>libcontainer/nsenter/cloned_binary.c\<close>: the detector
  \<^verbatim>\<open>is_self_cloned\<close>, the reader \<^verbatim>\<open>read_file\<close>, the splitter \<^verbatim>\<open>parse_xargs\<close>,
  \<^verbatim>\<open>fetchve\<close>, \<^verbatim>\<open>clone_binary\<close> and the entry point \<^verbatim>\<open>ensure_cloned_binary\<close>.

  The C code talks to the kernel only through system calls. The part of the kernel it can
  observe is kept in a record: the file behind \<^verbatim>\<open>/proc/self/exe\<close>, the two pseudo-files,
  the table of open descriptors, and a list of call sites at which a system call is made to
  fail. Every C function becomes a function from that record to its return value and the
  record as the call leaves it.
\<close>

subsection \<open>Constants of the source\<close>

definition ENOTRECOVERABLE :: int where "ENOTRECOVERABLE = 131"
definition EINVAL :: int where "EINVAL = 22"
definition EIO :: int where "EIO = 5"
definition ENOEXEC :: int where "ENOEXEC = 8"

definition F_SEAL_SEAL :: int where "F_SEAL_SEAL = 1"
definition F_SEAL_SHRINK :: int where "F_SEAL_SHRINK = 2"
definition F_SEAL_GROW :: int where "F_SEAL_GROW = 4"
definition F_SEAL_WRITE :: int where "F_SEAL_WRITE = 8"

definition RUNC_SENDFILE_MAX :: int where "RUNC_SENDFILE_MAX = 0x7FFFF000"

definition RUNC_MEMFD_SEALS :: int where
  "RUNC_MEMFD_SEALS = (F_SEAL_SEAL OR F_SEAL_SHRINK OR F_SEAL_GROW OR F_SEAL_WRITE)"

definition NUL :: char where "NUL = CHR 0x00"

subsection \<open>The process as the code sees it\<close>

text \<open>
  A file: its bytes, its seal mask (\<open>None\<close> for a file that is no shmem file, on which
  \<^verbatim>\<open>F_GET_SEALS\<close> and \<^verbatim>\<open>F_ADD_SEALS\<close> fail with EINVAL) and its link count.
\<close>

record ofile =
  bytes :: "char list"
  seals :: "int option"
  nlink :: nat

text \<open>The two pseudo-files \<^verbatim>\<open>read_file\<close> is called on.\<close>

datatype path = Proc_self_cmdline | Proc_self_environ

text \<open>
  The places of the source where a system call (or \<^verbatim>\<open>asprintf\<close>) may fail for a reason
  that lies outside the model (EMFILE, ENOMEM, EIO, a kernel that rejects the image):
  one constructor per call site. \<open>Read_file p k\<close> is the \<open>k\<close>-th \<^verbatim>\<open>read(2)\<close> (from 0)
  that \<^verbatim>\<open>read_file\<close> issues on \<open>p\<close>.
\<close>

datatype site =
    Open_exe_detect
  | Fstat_exe
  | Open_file path
  | Read_file path nat
  | Create_image
  | Open_exe_clone
  | Sendfile
  | Add_seals
  | Asprintf
  | Reopen
  | Fexecve

text \<open>The four operations the entry point sequences; each logs its own invocation.\<close>

datatype component = Detect | Fetch | Clone | Reexec

record proc =
  exe :: ofile
  cmdline :: "char list"
  environ :: "char list"
  fdt :: "(int \<times> ofile) list"
  faults :: "site list"
  xfer_limit :: "nat option"
  calls :: "component list"

definition fails :: "proc \<Rightarrow> site \<Rightarrow> bool" where
  "fails p s = (s \<in> set (faults p))"

definition invoked :: "component \<Rightarrow> proc \<Rightarrow> proc" where
  "invoked c p = p\<lparr>calls := calls p @ [c]\<rparr>"

definition open_fds :: "proc \<Rightarrow> int set" where
  "open_fds p = fst ` set (fdt p)"

subsection \<open>System calls\<close>

text \<open>A new descriptor is the lowest number that is not open.\<close>

definition lowest_free :: "(int \<times> ofile) list \<Rightarrow> int" where
  "lowest_free t =
     int (length (takeWhile (\<lambda>n. map_of t (int n) \<noteq> None) [0..<Suc (length t)]))"

definition sys_open :: "site \<Rightarrow> ofile \<Rightarrow> proc \<Rightarrow> int \<times> proc" where
  "sys_open s f p =
     (if fails p s then (- 1, p)
      else (let n = lowest_free (fdt p) in (n, p\<lparr>fdt := (n, f) # fdt p\<rparr>)))"

definition sys_close :: "int \<Rightarrow> proc \<Rightarrow> proc" where
  "sys_close fd p = p\<lparr>fdt := filter (\<lambda>e. fst e \<noteq> fd) (fdt p)\<rparr>"

definition set_file :: "int \<Rightarrow> ofile \<Rightarrow> (int \<times> ofile) list \<Rightarrow> (int \<times> ofile) list" where
  "set_file fd f t = map (\<lambda>e. if fst e = fd then (fd, f) else e) t"

text \<open>\<^verbatim>\<open>fcntl(fd, F_GET_SEALS)\<close>: the seal mask, or -1.\<close>

definition fcntl_get_seals :: "int \<Rightarrow> proc \<Rightarrow> int" where
  "fcntl_get_seals fd p =
     (case map_of (fdt p) fd of
        None \<Rightarrow> - 1
      | Some f \<Rightarrow> (case seals f of None \<Rightarrow> - 1 | Some s \<Rightarrow> s))"

text \<open>
  \<^verbatim>\<open>fcntl(fd, F_ADD_SEALS, new)\<close>: refused once \<^verbatim>\<open>F_SEAL_SEAL\<close> is set, else the new
  seals are added to the mask.
\<close>

definition fcntl_add_seals :: "int \<Rightarrow> int \<Rightarrow> proc \<Rightarrow> int \<times> proc" where
  "fcntl_add_seals fd new p =
     (if fails p Add_seals then (- 1, p)
      else (case map_of (fdt p) fd of
              None \<Rightarrow> (- 1, p)
            | Some f \<Rightarrow>
                (case seals f of
                   None \<Rightarrow> (- 1, p)
                 | Some s \<Rightarrow>
                     if s AND F_SEAL_SEAL \<noteq> 0 then (- 1, p)
                     else (0, p\<lparr>fdt := set_file fd (f\<lparr>seals := Some (s OR new)\<rparr>) (fdt p)\<rparr>))))"

text \<open>\<^verbatim>\<open>fstat(fd, &statbuf)\<close>: \<open>None\<close> for a negative return, else \<^verbatim>\<open>st_nlink\<close>.\<close>

definition sys_fstat :: "int \<Rightarrow> proc \<Rightarrow> nat option" where
  "sys_fstat fd p =
     (if fails p Fstat_exe then None
      else (case map_of (fdt p) fd of None \<Rightarrow> None | Some f \<Rightarrow> Some (nlink f)))"

text \<open>
  \<^verbatim>\<open>sendfile(out_fd, in_fd, NULL, count)\<close> from offset 0 of a freshly opened \<open>in_fd\<close>:
  one call moves at most \<open>count\<close> bytes, and the kernel may stop earlier
  (\<open>xfer_limit\<close>); the return value is the number of bytes moved.
\<close>

definition sys_sendfile :: "int \<Rightarrow> int \<Rightarrow> int \<Rightarrow> proc \<Rightarrow> int \<times> proc" where
  "sys_sendfile out_fd in_fd count p =
     (if fails p Sendfile then (- 1, p)
      else (case (map_of (fdt p) out_fd, map_of (fdt p) in_fd) of
              (Some out, Some inp) \<Rightarrow>
                (let want = min count (int (length (bytes inp)));
                     n = (case xfer_limit p of None \<Rightarrow> want | Some k \<Rightarrow> min (int k) want);
                     chunk = take (nat n) (bytes inp)
                 in (n, p\<lparr>fdt := set_file out_fd (out\<lparr>bytes := bytes out @ chunk\<rparr>) (fdt p)\<rparr>))
            | _ \<Rightarrow> (- 1, p)))"

text \<open>
  \<^verbatim>\<open>memfd_create(RUNC_MEMFD_COMMENT, MFD_CLOEXEC | MFD_ALLOW_SEALING)\<close>: an empty,
  unlinked shmem file with no seal set.
\<close>

definition memfd_create :: "proc \<Rightarrow> int \<times> proc" where
  "memfd_create p = sys_open Create_image \<lparr>bytes = [], seals = Some 0, nlink = 0\<rparr> p"

text \<open>\<^verbatim>\<open>open("/tmp", O_TMPFILE | O_EXCL | O_RDWR | O_CLOEXEC, 0711)\<close>: an empty file with no name.\<close>

definition open_tmpfile :: "proc \<Rightarrow> int \<times> proc" where
  "open_tmpfile p = sys_open Create_image \<lparr>bytes = [], seals = None, nlink = 0\<rparr> p"

subsection \<open>is\_self\_cloned\<close>

text \<open>
  The first argument of \<open>is_self_cloned\<close> and \<open>clone_binary\<close> is the compile-time switch
  \<^verbatim>\<open>HAVE_MEMFD_CREATE\<close>.
\<close>

definition is_self_cloned :: "bool \<Rightarrow> proc \<Rightarrow> int \<times> proc" where
  "is_self_cloned have_memfd p0 =
     (let (fd, p1) = sys_open Open_exe_detect (exe p0) (invoked Detect p0) in
      if fd < 0 then (- ENOTRECOVERABLE, p1)
      else
        (let is_cloned =
               (if have_memfd then
                  (let ret = fcntl_get_seals fd p1 in
                   if ret = RUNC_MEMFD_SEALS then 1 else 0)
                else
                  (case sys_fstat fd p1 of
                     None \<Rightarrow> 0
                   | Some st_nlink \<Rightarrow> if st_nlink = 0 then 1 else 0))
         in (is_cloned, sys_close fd p1)))"

subsection \<open>read\_file\<close>

definition pseudo_file :: "proc \<Rightarrow> path \<Rightarrow> char list" where
  "pseudo_file p f = (case f of Proc_self_cmdline \<Rightarrow> cmdline p | Proc_self_environ \<Rightarrow> environ p)"

definition buf_len :: "char list option \<Rightarrow> nat" where
  "buf_len copy = (case copy of None \<Rightarrow> 0 | Some b \<Rightarrow> length b)"

text \<open>
  The \<^verbatim>\<open>for (;;)\<close> loop of \<^verbatim>\<open>read_file\<close>. \<open>copy\<close> is the buffer gathered so far
  (\<open>None\<close> is the NULL pointer) and \<^verbatim>\<open>*length\<close> is its length, which is also the offset of
  the next \<^verbatim>\<open>read(2)\<close>; a read returns at most \<^verbatim>\<open>sizeof(buf)\<close> = 4096 bytes. The result is
  the pointer the function returns: NULL after a failed read, and \<open>copy\<close>, which is still
  NULL when the file was empty, at end of file. \<^verbatim>\<open>must_realloc\<close> spins until the
  allocation succeeds; the model lets it succeed. Both callers pass a \<^verbatim>\<open>length\<close> that is
  not NULL, and \<^verbatim>\<open>*length\<close> on return is the length of the block returned.
\<close>

function read_loop :: "proc \<Rightarrow> path \<Rightarrow> char list \<Rightarrow> nat \<Rightarrow> char list option \<Rightarrow> char list option" where
  "read_loop p f content k copy =
     (if fails p (Read_file f k) then None
      else (let chunk = take 4096 (drop (buf_len copy) content) in
            if chunk = [] then copy
            else read_loop p f content (Suc k)
                   (Some ((case copy of None \<Rightarrow> [] | Some b \<Rightarrow> b) @ chunk))))"
  by pat_completeness auto
termination
  by (relation "measure (\<lambda>(p, f, content, k, copy). length content - buf_len copy)")
     (auto simp: buf_len_def split: option.splits)

definition read_file :: "path \<Rightarrow> proc \<Rightarrow> char list option \<times> proc" where
  "read_file f p =
     (let (fd, p1) = sys_open (Open_file f) \<lparr>bytes = pseudo_file p f, seals = None, nlink = 1\<rparr> p in
      if fd < 0 then (None, p1)
      else (read_loop p1 f (pseudo_file p f) 0 None, sys_close fd p1))"

subsection \<open>parse\_xargs\<close>

text \<open>
  A cell of the \<^verbatim>\<open>char **\<close> array: uninitialised memory fresh from \<^verbatim>\<open>realloc\<close>, the
  NULL pointer, or a pointer into the data block, kept as its offset from \<^verbatim>\<open>data\<close>.
\<close>

datatype cell = Garbage | Null | Ptr nat

text \<open>What the C standard leaves undefined and the code can reach.\<close>

datatype ub = Overread | Null_deref | Overwrite

text \<open>
  \<^verbatim>\<open>strlen(cur)\<close>: the distance to the next NUL byte. \<open>data\<close> is the whole object that
  the pointer \<^verbatim>\<open>data\<close> points into (in \<^verbatim>\<open>fetchve\<close>: the block \<^verbatim>\<open>read_file\<close> allocated,
  which holds the bytes of the file and nothing else); a scan that meets no NUL inside it
  reads out of bounds: \<open>None\<close>.
\<close>

definition strlen :: "char list \<Rightarrow> nat \<Rightarrow> nat option" where
  "strlen data cur =
     (let rest = drop cur data in
      if NUL \<in> set rest then Some (length (takeWhile (\<lambda>c. c \<noteq> NUL) rest)) else None)"

text \<open>
  \<^verbatim>\<open>must_realloc(*output, n * sizeof(**output))\<close>: the old cells are kept and the new
  ones are uninitialised.
\<close>

definition must_realloc :: "cell list option \<Rightarrow> nat \<Rightarrow> cell list" where
  "must_realloc old n =
     (let xs = (case old of None \<Rightarrow> [] | Some a \<Rightarrow> a) in
      take n xs @ replicate (n - length xs) Garbage)"

text \<open>
  The \<^verbatim>\<open>while (cur < data + data_length)\<close> loop; \<open>cur\<close> is the offset of the pointer
  \<^verbatim>\<open>cur\<close> from \<^verbatim>\<open>data\<close>. \<open>num\<close> only counts up from 0, by one for at least one byte
  each, so it never exceeds \<^verbatim>\<open>data_length\<close>, an \<^verbatim>\<open>int\<close>; it is a natural number here.
\<close>

function parse_loop ::
  "char list \<Rightarrow> int \<Rightarrow> nat \<Rightarrow> nat \<Rightarrow> cell list option \<Rightarrow> ub + (nat \<times> cell list option)" where
  "parse_loop data data_length cur num output =
     (if int cur < data_length then
        (let num' = num + 1;
             output' = (must_realloc output (num' + 1))[num' - 1 := Ptr cur]
         in case strlen data cur of
              None \<Rightarrow> Inl Overread
            | Some l \<Rightarrow> parse_loop data data_length (cur + l + 1) num' (Some output'))
      else Inr (num, output))"
  by pat_completeness auto
termination
  by (relation "measure (\<lambda>(data, data_length, cur, num, output). nat (data_length - int cur))")
     auto

text \<open>
  \<open>data\<close> and \<open>output\<close> are the pointers \<^verbatim>\<open>data\<close> and \<^verbatim>\<open>*output\<close> (\<open>None\<close> is NULL). The
  result is the returned count and \<^verbatim>\<open>*output\<close> as the call leaves it. The closing store
  \<^verbatim>\<open>(*output)[num] = NULL\<close> goes through \<^verbatim>\<open>*output\<close>, which is still NULL when the loop
  never ran.
\<close>

definition parse_xargs ::
  "char list option \<Rightarrow> int \<Rightarrow> cell list option \<Rightarrow> ub + (int \<times> cell list option)" where
  "parse_xargs data data_length output =
     (case data of
        None \<Rightarrow> Inr (- 1, output)
      | Some d \<Rightarrow>
          if output \<noteq> None then Inr (- 1, output)
          else (case parse_loop d data_length 0 0 output of
                  Inl u \<Rightarrow> Inl u
                | Inr (num, out) \<Rightarrow>
                    (case out of
                       None \<Rightarrow> Inl Null_deref
                     | Some arr \<Rightarrow>
                         if num < length arr then Inr (int num, Some (arr[num := Null]))
                         else Inl Overwrite)))"

text \<open>The C string a cell points to, and the strings of a vector up to its NULL.\<close>

definition cstr :: "char list \<Rightarrow> cell \<Rightarrow> char list" where
  "cstr data c = (case c of Ptr q \<Rightarrow> takeWhile (\<lambda>x. x \<noteq> NUL) (drop q data) | _ \<Rightarrow> [])"

definition entries :: "char list \<Rightarrow> cell list \<Rightarrow> char list list" where
  "entries data arr = map (cstr data) (takeWhile (\<lambda>c. c \<noteq> Null) arr)"

subsection \<open>fetchve\<close>

text \<open>
  The arguments are \<^verbatim>\<open>*argv\<close> and \<^verbatim>\<open>*envp\<close> on entry; the result is the return value
  with \<^verbatim>\<open>*argv\<close> and \<^verbatim>\<open>*envp\<close> on exit. \<^verbatim>\<open>cmdline_size\<close> and \<^verbatim>\<open>environ_size\<close>
  are the lengths of the blocks \<^verbatim>\<open>read_file\<close> returned; they are \<^verbatim>\<open>size_t\<close> and the
  parameter \<^verbatim>\<open>data_length\<close> is an \<^verbatim>\<open>int\<close>, so each call narrows its length
  (\<open>int_of_size_t\<close>: the value modulo \<open>2 ^ 32\<close>, read as two's complement, as gcc and clang
  convert). Undefined behaviour inside \<^verbatim>\<open>parse_xargs\<close> ends the run. The calls of
  \<^verbatim>\<open>free\<close> change nothing the model keeps.
\<close>

definition int_of_size_t :: "nat \<Rightarrow> int" where
  "int_of_size_t n = (let m = int n mod 2 ^ 32 in if m < 2 ^ 31 then m else m - 2 ^ 32)"

definition fetchve ::
  "cell list option \<Rightarrow> cell list option \<Rightarrow> proc \<Rightarrow>
     (ub \<times> proc) + (int \<times> cell list option \<times> cell list option \<times> proc)" where
  "fetchve argv envp p0 =
     (let (cmdline_buf, p1) = read_file Proc_self_cmdline (invoked Fetch p0) in
      if cmdline_buf = None then Inr (- EINVAL, argv, envp, p1)
      else
        (let (environ_buf, p2) = read_file Proc_self_environ p1 in
         if environ_buf = None then Inr (- EINVAL, argv, envp, p2)
         else
           (case parse_xargs cmdline_buf (int_of_size_t (buf_len cmdline_buf)) argv of
              Inl u \<Rightarrow> Inl (u, p2)
            | Inr (n, argv') \<Rightarrow>
                if n \<le> 0 then Inr (- EINVAL, argv', envp, p2)
                else
                  (case parse_xargs environ_buf (int_of_size_t (buf_len environ_buf)) envp of
                     Inl u \<Rightarrow> Inl (u, p2)
                   | Inr (m, envp') \<Rightarrow>
                       if m \<le> 0 then Inr (- EINVAL, argv', envp', p2)
                       else Inr (0, argv', envp', p2)))))"

subsection \<open>clone\_binary\<close>

definition clone_binary :: "bool \<Rightarrow> proc \<Rightarrow> int \<times> proc" where
  "clone_binary have_memfd p0 =
     (let (memfd, p1) = (if have_memfd then memfd_create (invoked Clone p0)
                         else open_tmpfile (invoked Clone p0)) in
      if memfd < 0 then (- ENOTRECOVERABLE, p1)
      else
        (let (binfd, p2) = sys_open Open_exe_clone (exe p1) p1 in
         if binfd < 0 then (- EIO, sys_close memfd p2)
         else
           (let (sent, p3) = sys_sendfile memfd binfd RUNC_SENDFILE_MAX p2;
                p4 = sys_close binfd p3 in
            if sent < 0 then (- EIO, sys_close memfd p4)
            else if have_memfd then
              (let (err, p5) = fcntl_add_seals memfd RUNC_MEMFD_SEALS p4 in
               if err < 0 then (- EIO, sys_close memfd p5) else (memfd, p5))
            else if fails p4 Asprintf then (- EIO, sys_close memfd p4)
            else
              (let (newfd, p5) = (case map_of (fdt p4) memfd of
                                    None \<Rightarrow> (- 1, p4)
                                  | Some f \<Rightarrow> sys_open Reopen f p4) in
               if newfd < 0 then (- EIO, sys_close memfd p5)
               else (newfd, sys_close memfd p5)))))"

subsection \<open>ensure\_cloned\_binary\<close>

text \<open>
  How a call of the entry point ends: it returns a status, or \<^verbatim>\<open>fexecve\<close> replaces the
  process image (with the file behind \<^verbatim>\<open>execfd\<close> and the two vectors) and the call never
  returns, or the run has met undefined behaviour.
\<close>

datatype outcome =
    Returned int proc
  | Replaced ofile "cell list option" "cell list option" proc
  | Undefined ub proc

text \<open>\<^verbatim>\<open>fexecve(execfd, argv, envp)\<close>: \<open>Inr\<close> is the process state when the call comes back.\<close>

definition fexecve ::
  "int \<Rightarrow> cell list option \<Rightarrow> cell list option \<Rightarrow> proc \<Rightarrow> outcome + proc" where
  "fexecve execfd argv envp p0 =
     (let p = invoked Reexec p0 in
      if fails p Fexecve then Inr p
      else (case map_of (fdt p) execfd of
              None \<Rightarrow> Inr p
            | Some img \<Rightarrow> Inl (Replaced img argv envp p)))"

definition ensure_cloned_binary :: "bool \<Rightarrow> proc \<Rightarrow> outcome" where
  "ensure_cloned_binary have_memfd p0 =
     (let (cloned, p1) = is_self_cloned have_memfd p0 in
      if cloned > 0 \<or> cloned = - ENOTRECOVERABLE then Returned cloned p1
      else
        (case fetchve None None p1 of
           Inl (u, p2) \<Rightarrow> Undefined u p2
         | Inr (r, argv, envp, p2) \<Rightarrow>
             if r < 0 then Returned (- EINVAL) p2
             else
               (let (execfd, p3) = clone_binary have_memfd p2 in
                if execfd < 0 then Returned (- EIO) p3
                else
                  (case fexecve execfd argv envp p3 of
                     Inl replaced \<Rightarrow> replaced
                   | Inr p4 \<Rightarrow> Returned (- ENOEXEC) p4))))"

text \<open>The process state an outcome carries.\<close>

definition final :: "outcome \<Rightarrow> proc" where
  "final out = (case out of Returned r p \<Rightarrow> p | Replaced f a e p \<Rightarrow> p | Undefined u p \<Rightarrow> p)"

subsection \<open>Auxiliary notions\<close>

text \<open>
  The number of bytes the single \<^verbatim>\<open>sendfile\<close> call of \<open>clone_binary\<close> moves out of
  \<^verbatim>\<open>/proc/self/exe\<close>.
\<close>

definition xfer :: "proc \<Rightarrow> int" where
  "xfer p = (let want = min RUNC_SENDFILE_MAX (int (length (bytes (exe p))))
             in case xfer_limit p of None \<Rightarrow> want | Some k \<Rightarrow> min (int k) want)"

text \<open>
  The array \<open>parse_loop\<close> has built after it stored the pointers \<open>qs\<close>: NULL before the
  first \<^verbatim>\<open>realloc\<close>, else the pointers followed by one cell not yet written.
\<close>

definition vec :: "nat list \<Rightarrow> cell list option" where
  "vec qs = (if qs = [] then None else Some (map Ptr qs @ [Garbage]))"

text \<open>
  The strings a caller finds in the vector when it hands a whole block to \<open>parse_xargs\<close>;
  \<open>None\<close> when the call yields no vector.
\<close>

definition split_entries :: "char list \<Rightarrow> char list list option" where
  "split_entries d =
     (case parse_xargs (Some d) (int (length d)) None of
        Inr (n, Some arr) \<Rightarrow> Some (entries d arr)
      | _ \<Rightarrow> None)"

text \<open>The operations one call of the entry point invokes, in order.\<close>

definition trace :: "bool \<Rightarrow> proc \<Rightarrow> component list" where
  "trace have_memfd p = drop (length (calls p)) (calls (final (ensure_cloned_binary have_memfd p)))"

subsection \<open>Sample processes\<close>

text \<open>
  A process started from an executable on disk as \<^verbatim>\<open>runc init\<close>, with the three standard
  descriptors open; \<open>fs\<close> are the call sites that are made to fail.
\<close>

definition stdio :: ofile where
  "stdio = \<lparr>bytes = [], seals = None, nlink = 1\<rparr>"

definition on_disk :: "char list \<Rightarrow> ofile" where
  "on_disk b = \<lparr>bytes = b, seals = None, nlink = 1\<rparr>"

definition demo :: "site list \<Rightarrow> proc" where
  "demo fs =
     \<lparr>exe = on_disk ''ELF'',
      cmdline = ''runc'' @ NUL # ''init'' @ [NUL],
      environ = ''A=1'' @ [NUL],
      fdt = [(0, stdio), (1, stdio), (2, stdio)],
      faults = fs, xfer_limit = None, calls = []\<rparr>"

text \<open>The same process when its executable is a file without a link and without seals.\<close>

definition unlinked :: "site list \<Rightarrow> proc" where
  "unlinked fs = (demo fs)\<lparr>exe := \<lparr>bytes = ''ELF'', seals = None, nlink = 0\<rparr>\<rparr>"

text \<open>The blob \<^verbatim>\<open>"a\0bb\0\0"\<close> of six bytes.\<close>

definition blob6 :: "char list" where
  "blob6 = [CHR ''a'', NUL, CHR ''b'', CHR ''b'', NUL, NUL]"

text \<open>The same process with an executable of two full transfer chunks.\<close>

definition big :: proc where
  "big = (demo [])\<lparr>exe := on_disk (replicate (2 * 0x7FFFF000) (CHR 0x90))\<rparr>"

text \<open>The process after the image replacement: its executable is the sealed memory file.\<close>

definition reexecuted :: proc where
  "reexecuted = (demo [])\<lparr>exe := \<lparr>bytes = ''ELF'', seals = Some RUNC_MEMFD_SEALS, nlink = 0\<rparr>\<rparr>"

section \<open>Descriptors and system calls\<close>

declare parse_loop.simps [simp del] read_loop.simps [simp del]

lemma fails_invoked [simp]: "fails (invoked c p) s = fails p s"
  by (simp add: fails_def invoked_def)

lemma lowest_free_nonneg [simp]: "0 \<le> lowest_free t"
  by (simp add: lowest_free_def)

lemma lowest_free_not_neg [simp]: "\<not> lowest_free t < 0"
  by (simp add: lowest_free_def)

lemma lowest_free_fresh [simp]: "map_of t (lowest_free t) = None"
proof -
  let ?P = "\<lambda>n. map_of t (int n) \<noteq> None"
  let ?xs = "[0..<Suc (length t)]"
  let ?k = "length (takeWhile ?P ?xs)"
  have le: "?k \<le> length ?xs" by (rule length_takeWhile_le)
  show ?thesis
  proof (cases "?k < length ?xs")
    case True
    then have "\<not> ?P (?xs ! ?k)" by (rule nth_length_takeWhile)
    moreover from True have "?xs ! ?k = ?k"
      by (metis add_0 length_upt minus_nat.diff_0 nth_upt)
    ultimately show ?thesis by (simp add: lowest_free_def)
  next
    case False
    with le have "takeWhile ?P ?xs = ?xs"
      by (metis le_antisym linorder_not_less takeWhile_eq_take take_all_iff)
    then have all: "\<forall>n \<in> set ?xs. ?P n" by (metis set_takeWhileD)
    have "int n \<in> fst ` set t" if "n \<le> length t" for n
    proof -
      from that have "n \<in> set ?xs" by auto
      with all have "?P n" by blast
      then show ?thesis by (simp add: map_of_eq_None_iff)
    qed
    then have "int ` {0..length t} \<subseteq> fst ` set t"
      by (simp add: image_subset_iff)
    then have "card (int ` {0..length t}) \<le> card (fst ` set t)"
      by (intro card_mono) auto
    moreover have "card (int ` {0..length t}) = Suc (length t)"
      by (simp add: card_image)
    moreover have "card (fst ` set t) \<le> length t"
      by (metis card_image_le card_length le_trans List.finite_set)
    ultimately show ?thesis by simp
  qed
qed

lemma lowest_free_not_open: "lowest_free t \<notin> fst ` set t"
  by (rule lowest_free_fresh [unfolded map_of_eq_None_iff])

lemma filter_lowest_free [simp]: "filter (\<lambda>e. fst e \<noteq> lowest_free t) t = t"
  using lowest_free_not_open [of t] by (force simp: filter_id_conv)

lemma sys_open_fails: "fails p s \<Longrightarrow> sys_open s f p = (- 1, p)"
  by (simp add: sys_open_def)

lemma sys_open_ok:
  "\<not> fails p s \<Longrightarrow> sys_open s f p = (lowest_free (fdt p), p\<lparr>fdt := (lowest_free (fdt p), f) # fdt p\<rparr>)"
  by (simp add: sys_open_def Let_def)

lemma is_self_cloned_open_fails:
  "fails p Open_exe_detect \<Longrightarrow> is_self_cloned hm p = (- ENOTRECOVERABLE, invoked Detect p)"
  by (simp add: is_self_cloned_def sys_open_fails)

lemma RUNC_MEMFD_SEALS_eq: "RUNC_MEMFD_SEALS = 15"
  by (simp add: RUNC_MEMFD_SEALS_def F_SEAL_SEAL_def F_SEAL_SHRINK_def F_SEAL_GROW_def F_SEAL_WRITE_def)

lemma is_self_cloned_open_ok:
  "\<not> fails p Open_exe_detect \<Longrightarrow>
   is_self_cloned hm p =
     (if hm then (if seals (exe p) = Some RUNC_MEMFD_SEALS then 1 else 0)
      else if fails p Fstat_exe then 0 else if nlink (exe p) = 0 then 1 else 0,
      invoked Detect p)"
  by (auto simp: is_self_cloned_def sys_open_ok sys_close_def fcntl_get_seals_def sys_fstat_def
      RUNC_MEMFD_SEALS_eq invoked_def fails_def split: option.splits)

lemma read_file_state [simp]: "snd (read_file f p) = p"
  by (cases "fails p (Open_file f)") (simp_all add: read_file_def sys_open_ok sys_open_fails sys_close_def)

lemma lowest_free_cons_neq [simp]: "lowest_free ((m, f) # t) \<noteq> m"
  using lowest_free_not_open [of "(m, f) # t"] by auto

lemma lowest_free_cons_neq' [simp]: "m \<noteq> lowest_free ((m, f) # t)"
  by (metis lowest_free_cons_neq)

lemma lowest_free_cons_fresh [simp]: "map_of t (lowest_free ((m, f) # t)) = None"
  using lowest_free_not_open [of "(m, f) # t"] by (simp add: map_of_eq_None_iff)

lemma filter_lowest_free_cons [simp]:
  "filter (\<lambda>e. fst e \<noteq> lowest_free ((m, f) # t)) t = t"
  using lowest_free_not_open [of "(m, f) # t"] by (force simp: filter_id_conv)

lemma set_file_absent: "fd \<notin> fst ` set t \<Longrightarrow> set_file fd f t = t"
  by (induction t) (auto simp: set_file_def)

lemma set_file_fresh [simp]: "set_file (lowest_free t) f t = t"
  by (rule set_file_absent [OF lowest_free_not_open])

lemma set_file_cons_fresh [simp]: "set_file (lowest_free ((m, g) # t)) f t = t"
  using lowest_free_not_open [of "(m, g) # t"] by (intro set_file_absent) auto

lemma set_file_hit [simp]: "set_file m f ((m, g) # t) = (m, f) # set_file m f t"
  by (simp add: set_file_def)

lemma set_file_miss [simp]: "k \<noteq> m \<Longrightarrow> set_file m f ((k, g) # t) = (k, g) # set_file m f t"
  by (simp add: set_file_def)

lemma filter_two_fresh [simp]:
  "filter (\<lambda>x. fst x \<noteq> lowest_free ((lowest_free t, f) # t) \<and> fst x \<noteq> lowest_free t) t = t"
  using lowest_free_not_open [of t] lowest_free_not_open [of "(lowest_free t, f) # t"]
  by (force simp: filter_id_conv)

lemma is_self_cloned_state [simp]: "snd (is_self_cloned hm p) = invoked Detect p"
  by (cases "fails p Open_exe_detect") (simp_all add: is_self_cloned_open_fails is_self_cloned_open_ok)

lemma xfer_nonneg: "0 \<le> xfer p"
  by (simp add: xfer_def RUNC_SENDFILE_MAX_def Let_def split: option.splits)

lemma clone_binary_create_fails:
  "fails p Create_image \<Longrightarrow> clone_binary hm p = (- ENOTRECOVERABLE, invoked Clone p)"
  by (simp add: clone_binary_def memfd_create_def open_tmpfile_def sys_open_fails)

lemma clone_binary_memfd:
  "\<not> fails p Create_image \<Longrightarrow>
   clone_binary True p =
     (if fails p Open_exe_clone \<or> fails p Sendfile \<or> fails p Add_seals
      then (- EIO, invoked Clone p)
      else (lowest_free (fdt p),
            (invoked Clone p)\<lparr>fdt :=
               (lowest_free (fdt p),
                \<lparr>bytes = take (nat (xfer p)) (bytes (exe p)),
                   seals = Some RUNC_MEMFD_SEALS, nlink = 0\<rparr>) # fdt p\<rparr>))"
  using xfer_nonneg [of p]
  by (simp add: clone_binary_def memfd_create_def sys_open_def sys_sendfile_def
      sys_close_def fcntl_add_seals_def Let_def xfer_def invoked_def fails_def F_SEAL_SEAL_def)


lemma clone_binary_tmpfile:
  "\<not> fails p Create_image \<Longrightarrow>
   clone_binary False p =
     (if fails p Open_exe_clone \<or> fails p Sendfile \<or> fails p Asprintf \<or> fails p Reopen
      then (- EIO, invoked Clone p)
      else (lowest_free ((lowest_free (fdt p), \<lparr>bytes = take (nat (xfer p)) (bytes (exe p)),
                   seals = None, nlink = 0\<rparr>) # fdt p),
            (invoked Clone p)\<lparr>fdt :=
               (lowest_free ((lowest_free (fdt p), \<lparr>bytes = take (nat (xfer p)) (bytes (exe p)),
                   seals = None, nlink = 0\<rparr>) # fdt p),
                \<lparr>bytes = take (nat (xfer p)) (bytes (exe p)),
                   seals = None, nlink = 0\<rparr>) # fdt p\<rparr>))"
  using xfer_nonneg [of p]
  by (simp add: clone_binary_def open_tmpfile_def sys_open_def sys_sendfile_def
      sys_close_def Let_def xfer_def invoked_def fails_def)

section \<open>Splitting and reading\<close>

lemma must_realloc_vec:
  "(must_realloc (vec qs) (length qs + 2))[length qs := Ptr cur] = map Ptr (qs @ [cur]) @ [Garbage]"
  by (cases "qs = []") (simp_all add: must_realloc_def vec_def list_update_append numeral_2_eq_2)

lemma strlen_SomeD:
  assumes "strlen d cur = Some l"
  shows "cur < length d" and "cur + l < length d" and "d ! (cur + l) = NUL"
    and "takeWhile (\<lambda>c. c \<noteq> NUL) (drop cur d) @ NUL # drop (cur + l + 1) d = drop cur d"
    and "l = length (takeWhile (\<lambda>c. c \<noteq> NUL) (drop cur d))"
proof -
  let ?r = "drop cur d"
  from assms have mem: "NUL \<in> set ?r" and l: "l = length (takeWhile (\<lambda>c. c \<noteq> NUL) ?r)"
    by (auto simp: strlen_def Let_def split: if_splits)
  show "l = length (takeWhile (\<lambda>c. c \<noteq> NUL) (drop cur d))" by (rule l)
  from mem show c: "cur < length d" by (cases "cur < length d") auto
  have lt: "l < length ?r"
  proof (rule ccontr)
    assume "\<not> l < length ?r"
    with length_takeWhile_le [of "\<lambda>c. c \<noteq> NUL" ?r] l
    have "length (takeWhile (\<lambda>c. c \<noteq> NUL) ?r) = length ?r" by simp
    then have "takeWhile (\<lambda>c. c \<noteq> NUL) ?r = ?r"
      by (metis takeWhile_eq_take take_all order_refl)
    then have "\<forall>x\<in>set ?r. x \<noteq> NUL" by (simp only: takeWhile_eq_all_conv)
    with mem show False by blast
  qed
  then show cl: "cur + l < length d" by simp
  have "?r ! l = NUL" using lt l mem
    by (metis (mono_tags, lifting) nth_length_takeWhile)
  then show "d ! (cur + l) = NUL" using cl by simp
  have "dropWhile (\<lambda>c. c \<noteq> NUL) ?r = drop l ?r"
    by (simp add: l dropWhile_eq_drop)
  moreover have "drop l ?r = ?r ! l # drop (Suc l) ?r"
    using lt by (rule Cons_nth_drop_Suc [symmetric])
  ultimately have "dropWhile (\<lambda>c. c \<noteq> NUL) ?r = NUL # drop (cur + l + 1) d"
    using \<open>?r ! l = NUL\<close> by (simp add: add.commute)
  then show "takeWhile (\<lambda>c. c \<noteq> NUL) ?r @ NUL # drop (cur + l + 1) d = ?r"
    by (metis takeWhile_dropWhile_id)
qed


lemma parse_loop_vec:
  "num = length qs \<Longrightarrow> outp = vec qs \<Longrightarrow> parse_loop d dl cur num outp = Inr (n, out) \<Longrightarrow>
   \<exists>ps. n = length qs + length ps \<and> out = vec (qs @ ps) \<and>
        (\<forall>q\<in>set ps. cur \<le> q \<and> q < length d) \<and>
        (dl = int (length d) \<longrightarrow>
           concat (map (\<lambda>q. cstr d (Ptr q) @ [NUL]) ps) = drop cur d)"
proof (induction d dl cur num outp arbitrary: qs rule: parse_loop.induct)
  case (1 d dl cur num outp)
  show ?case
  proof (cases "int cur < dl")
    case False
    with "1.prems" have "n = length qs" and "out = vec qs"
      by (simp_all add: parse_loop.simps [of d dl cur])
    moreover from False have "dl = int (length d) \<longrightarrow> drop cur d = []" by auto
    ultimately show ?thesis by (intro exI [of _ "[]"]) simp
  next
    case True
    show ?thesis
    proof (cases "strlen d cur")
      case None
      with True "1.prems" show ?thesis
        by (simp add: parse_loop.simps [of d dl cur] Let_def)
    next
      case (Some l)
      let ?out' = "(must_realloc outp (num + 1 + 1))[num + 1 - 1 := Ptr cur]"
      have "?out' = map Ptr (qs @ [cur]) @ [Garbage]"
        using must_realloc_vec [of qs cur] "1.prems"(1,2) by (simp add: numeral_2_eq_2)
      then have v: "Some ?out' = vec (qs @ [cur])" by (simp add: vec_def)
      have len: "num + 1 = length (qs @ [cur])" using "1.prems"(1) by simp
      have run: "parse_loop d dl (cur + l + 1) (num + 1) (Some ?out') = Inr (n, out)"
        using "1.prems"(3) True Some
        by (simp add: parse_loop.simps [of d dl cur] Let_def)
      from "1.IH" [OF True refl refl Some len v run]
      obtain ps where ps: "n = length (qs @ [cur]) + length ps" "out = vec ((qs @ [cur]) @ ps)"
        "\<forall>q\<in>set ps. cur + l + 1 \<le> q \<and> q < length d"
        "dl = int (length d) \<longrightarrow>
           concat (map (\<lambda>q. cstr d (Ptr q) @ [NUL]) ps) = drop (cur + l + 1) d"
        by blast
      note sl = strlen_SomeD [OF Some]
      have "concat (map (\<lambda>q. cstr d (Ptr q) @ [NUL]) (cur # ps)) = drop cur d"
        if "dl = int (length d)"
        using that ps(4) sl(4) by (simp add: cstr_def)
      with ps(1,2,3) sl(1) show ?thesis
        by (intro exI [of _ "cur # ps"]) auto
    qed
  qed
qed


lemma parse_loop_total:
  "last d = NUL \<Longrightarrow> \<exists>r. parse_loop d (int (length d)) cur num outp = Inr r"
proof (induction d "int (length d)" cur num outp rule: parse_loop.induct)
  case (1 d cur num outp)
  show ?case
  proof (cases "cur < length d")
    case False
    then show ?thesis by (simp add: parse_loop.simps [of d _ cur])
  next
    case True
    then have "drop cur d \<noteq> []" by simp
    then have "last (drop cur d) \<in> set (drop cur d)" by (rule last_in_set)
    with True "1.prems" have "NUL \<in> set (drop cur d)" by (simp add: last_drop)
    then obtain l where l: "strlen d cur = Some l" by (simp add: strlen_def Let_def)
    from "1.hyps" [OF _ refl refl l "1.prems"] True
    obtain r where
      "parse_loop d (int (length d)) (cur + l + 1) (num + 1)
         (Some ((must_realloc outp (num + 1 + 1))[num + 1 - 1 := Ptr cur])) = Inr r"
      by auto
    with True l show ?thesis by (simp add: parse_loop.simps [of d _ cur] Let_def)
  qed
qed

lemma parse_xargs_vector:
  assumes "parse_xargs (Some d) dl None = Inr (n, out)" and "0 < n"
  shows "\<exists>ps. ps \<noteq> [] \<and> n = int (length ps) \<and> out = Some (map Ptr ps @ [Null]) \<and>
           (\<forall>q\<in>set ps. q < length d) \<and>
           (dl = int (length d) \<longrightarrow> concat (map (\<lambda>q. cstr d (Ptr q) @ [NUL]) ps) = d)"
proof -
  from assms obtain num o' where run: "parse_loop d dl 0 0 None = Inr (num, o')"
    by (auto simp: parse_xargs_def split: sum.splits)
  have "0 = length ([] :: nat list)" and "None = vec []" by (simp_all add: vec_def)
  from parse_loop_vec [OF this run]
  obtain ps where ps: "num = length ps" "o' = vec ps" "\<forall>q\<in>set ps. q < length d"
    "dl = int (length d) \<longrightarrow> concat (map (\<lambda>q. cstr d (Ptr q) @ [NUL]) ps) = d"
    by auto
  from assms run ps(1,2) have "ps \<noteq> []" and "n = int (length ps)"
    and "out = Some (map Ptr ps @ [Null])"
    by (auto simp: parse_xargs_def vec_def list_update_append split: if_splits)
  with ps(3,4) show ?thesis by blast
qed


lemma entries_vector [simp]: "entries d (map Ptr ps @ [Null]) = map (\<lambda>q. cstr d (Ptr q)) ps"
proof -
  have "takeWhile (\<lambda>c. c \<noteq> Null) (map Ptr ps @ [Null]) = map Ptr ps"
    by (induction ps) auto
  then show ?thesis by (simp add: entries_def comp_def)
qed

lemma read_loop_faults:
  "faults p = faults q \<Longrightarrow> read_loop p f content k copy = read_loop q f content k copy"
proof (induction p f content k copy rule: read_loop.induct)
  case (1 p f content k copy)
  then show ?case
    by (simp add: read_loop.simps [of p f content k] read_loop.simps [of q f content k]
        Let_def fails_def)
qed

lemma read_file_eq:
  "read_file f p =
     (if fails p (Open_file f) then None else read_loop p f (pseudo_file p f) 0 None, p)"
  by (simp add: read_file_def sys_open_def sys_close_def Let_def
      read_loop_faults [of "p\<lparr>fdt := t\<rparr>" p for t])

lemma read_loop_empty: "read_loop p f [] k None = None"
  by (simp add: read_loop.simps [of p f "[]" k None] buf_len_def)

text \<open>
  The \<open>k\<close>-th read is issued when every read before it returned bytes, that is when
  \<open>4096 * k < length content + 4096\<close>; the last read issued is the one that meets the end
  of the file.
\<close>

lemma read_loop_fault:
  "fails p (Read_file f k) \<Longrightarrow> j \<le> k \<Longrightarrow> buf_len copy = 4096 * j \<Longrightarrow>
   4096 * k < length content + 4096 \<Longrightarrow> read_loop p f content j copy = None"
proof (induction p f content j copy rule: read_loop.induct)
  case (1 p f content j copy)
  show ?case
  proof (cases "fails p (Read_file f j)")
    case True
    then show ?thesis by (simp add: read_loop.simps [of p f content j])
  next
    case False
    with "1.prems" have jk: "j < k" by (cases "j = k") auto
    let ?chunk = "take 4096 (drop (buf_len copy) content)"
    from jk "1.prems"(4) have room: "4096 * Suc j < length content + 4096" by simp
    with "1.prems"(3) have len: "length ?chunk = 4096 \<or> (length ?chunk > 0 \<and> Suc j = k)"
      using jk "1.prems"(4) by (cases "4096 * Suc j \<le> length content") auto
    then have ne: "?chunk \<noteq> []" by auto
    let ?copy' = "Some ((case copy of None \<Rightarrow> [] | Some b \<Rightarrow> b) @ ?chunk)"
    show ?thesis
    proof (cases "Suc j = k")
      case True
      with "1.prems"(1) have "read_loop p f content (Suc j) ?copy' = None"
        by (simp add: read_loop.simps [of p f content k])
      with False ne show ?thesis by (simp add: read_loop.simps [of p f content j] Let_def)
    next
      case notk: False
      with jk have "Suc j < k" by simp
      with "1.prems"(4) have full: "4096 * Suc j \<le> length content" by simp
      with "1.prems"(3) have "length ?chunk = 4096" by simp
      with "1.prems"(3) have "buf_len ?copy' = 4096 * Suc j"
        by (simp add: buf_len_def split: option.splits)
      with "1.IH" [OF False refl ne "1.prems"(1)] jk "1.prems"(4)
      have "read_loop p f content (Suc j) ?copy' = None" by simp
      with False ne show ?thesis by (simp add: read_loop.simps [of p f content j] Let_def)
    qed
  qed
qed

lemma read_loop_nonempty:
  "read_loop p f content k copy = Some b \<Longrightarrow> (copy = None \<longrightarrow> b \<noteq> []) \<and> (\<forall>c. copy = Some c \<and> c \<noteq> [] \<longrightarrow> b \<noteq> [])"
proof (induction p f content k copy rule: read_loop.induct)
  case (1 p f content k copy)
  show ?case
  proof (cases "fails p (Read_file f k) \<or> take 4096 (drop (buf_len copy) content) = []")
    case True
    with "1.prems" show ?thesis
      by (auto simp: read_loop.simps [of p f content k] Let_def split: if_splits)
  next
    case False
    with "1.prems" "1.IH" [OF _ refl] show ?thesis
      by (auto simp: read_loop.simps [of p f content k] Let_def split: if_splits)
  qed
qed

lemma read_file_nonempty: "fst (read_file f p) = Some b \<Longrightarrow> b \<noteq> []"
  using read_loop_nonempty [of p f "pseudo_file p f" 0 None b]
  by (simp add: read_file_eq split: if_splits)

section \<open>Fetching the vectors\<close>

lemma invoked_fields [simp]:
  "exe (invoked c p) = exe p"
  "cmdline (invoked c p) = cmdline p"
  "environ (invoked c p) = environ p"
  "fdt (invoked c p) = fdt p"
  "faults (invoked c p) = faults p"
  "xfer_limit (invoked c p) = xfer_limit p"
  "calls (invoked c p) = calls p @ [c]"
  by (simp_all add: invoked_def)

lemma pseudo_file_invoked [simp]: "pseudo_file (invoked c p) f = pseudo_file p f"
  by (cases f) (simp_all add: pseudo_file_def invoked_def)

lemma read_file_invoked:
  "read_file f (invoked c p) = (fst (read_file f p), invoked c p)"
  by (simp add: read_file_eq read_loop_faults [of "invoked c p" p])

lemma fetchve_state:
  "fetchve a e p = Inl (u, p') \<Longrightarrow> p' = invoked Fetch p"
  "fetchve a e p = Inr (r, a', e', p') \<Longrightarrow> p' = invoked Fetch p \<and> (r = 0 \<or> r = - EINVAL)"
  by (auto simp: fetchve_def read_file_eq Let_def split: if_splits sum.splits prod.splits)

lemma fetchve_unread:
  "fst (read_file Proc_self_cmdline p) = None \<or> fst (read_file Proc_self_environ p) = None \<Longrightarrow>
   fetchve a e p = Inr (- EINVAL, a, e, invoked Fetch p)"
  by (auto simp: fetchve_def read_file_invoked Let_def)

lemma int_of_size_t_small: "n < 2 ^ 31 \<Longrightarrow> int_of_size_t n = int n"
  by (simp add: int_of_size_t_def Let_def)

lemma fetchve_success:
  assumes "fetchve None None p = Inr (r, a, e, p')" and "0 \<le> r"
  shows "\<exists>c v ps qs. fst (read_file Proc_self_cmdline p) = Some c \<and>
           fst (read_file Proc_self_environ p) = Some v \<and> ps \<noteq> [] \<and> qs \<noteq> [] \<and>
           a = Some (map Ptr ps @ [Null]) \<and> e = Some (map Ptr qs @ [Null]) \<and>
           (\<forall>q\<in>set ps. q < length c) \<and> (\<forall>q\<in>set qs. q < length v) \<and>
           (length c < 2 ^ 31 \<longrightarrow> concat (map (\<lambda>q. cstr c (Ptr q) @ [NUL]) ps) = c) \<and>
           (length v < 2 ^ 31 \<longrightarrow> concat (map (\<lambda>q. cstr v (Ptr q) @ [NUL]) qs) = v)"
proof -
  note rf = read_file_invoked
  from assms obtain c where c: "fst (read_file Proc_self_cmdline p) = Some c"
    by (cases "fst (read_file Proc_self_cmdline p)") (auto simp: fetchve_def rf EINVAL_def)
  from assms c obtain v where v: "fst (read_file Proc_self_environ p) = Some v"
    by (cases "fst (read_file Proc_self_environ p)") (auto simp: fetchve_def rf EINVAL_def)
  from assms c v obtain n where
    n: "parse_xargs (Some c) (int_of_size_t (length c)) None = Inr (n, a)" "0 < n"
    by (auto simp: fetchve_def rf EINVAL_def buf_len_def split: sum.splits if_splits)
  from assms c v n obtain m where
    m: "parse_xargs (Some v) (int_of_size_t (length v)) None = Inr (m, e)" "0 < m"
    by (auto simp: fetchve_def rf EINVAL_def buf_len_def split: sum.splits if_splits)
  from parse_xargs_vector [OF n] obtain ps where
    ps: "ps \<noteq> []" "a = Some (map Ptr ps @ [Null])" "\<forall>q\<in>set ps. q < length c"
      "int_of_size_t (length c) = int (length c) \<longrightarrow>
         concat (map (\<lambda>q. cstr c (Ptr q) @ [NUL]) ps) = c"
    by blast
  from parse_xargs_vector [OF m] obtain qs where
    qs: "qs \<noteq> []" "e = Some (map Ptr qs @ [Null])" "\<forall>q\<in>set qs. q < length v"
      "int_of_size_t (length v) = int (length v) \<longrightarrow>
         concat (map (\<lambda>q. cstr v (Ptr q) @ [NUL]) qs) = v"
    by blast
  from ps(4) have "length c < 2 ^ 31 \<longrightarrow> concat (map (\<lambda>q. cstr c (Ptr q) @ [NUL]) ps) = c"
    by (simp add: int_of_size_t_small)
  moreover from qs(4) have "length v < 2 ^ 31 \<longrightarrow> concat (map (\<lambda>q. cstr v (Ptr q) @ [NUL]) qs) = v"
    by (simp add: int_of_size_t_small)
  ultimately show ?thesis using c v ps(1,2,3) qs(1,2,3) by blast
qed

section \<open>Cloning and the image replacement\<close>

lemma fexecve_eq:
  "fexecve fd a e p =
     (if fails p Fexecve then Inr (invoked Reexec p)
      else case map_of (fdt p) fd of
             None \<Rightarrow> Inr (invoked Reexec p)
           | Some img \<Rightarrow> Inl (Replaced img a e (invoked Reexec p)))"
  by (simp add: fexecve_def Let_def)

lemma clone_binary_result:
  assumes "clone_binary hm p = (fd, p')"
  shows "(fd < 0 \<and> (fd = - ENOTRECOVERABLE \<or> fd = - EIO) \<and> p' = invoked Clone p) \<or>
         (0 \<le> fd \<and> fd \<notin> open_fds p \<and>
          p' = (invoked Clone p)\<lparr>fdt :=
                 (fd, \<lparr>bytes = take (nat (xfer p)) (bytes (exe p)),
                       seals = (if hm then Some RUNC_MEMFD_SEALS else None), nlink = 0\<rparr>) # fdt p\<rparr>)"
proof (cases "fails p Create_image")
  case True
  with assms show ?thesis by (simp add: clone_binary_create_fails ENOTRECOVERABLE_def)
next
  case False
  show ?thesis
  proof (cases hm)
    case True
    with assms clone_binary_memfd [OF False] lowest_free_not_open [of "fdt p"] show ?thesis
      by (auto simp: EIO_def open_fds_def split: if_splits)
  next
    case hm: False
    let ?f = "\<lparr>bytes = take (nat (xfer p)) (bytes (exe p)), seals = None, nlink = 0\<rparr>"
    from lowest_free_not_open [of "(lowest_free (fdt p), ?f) # fdt p"]
    have "lowest_free ((lowest_free (fdt p), ?f) # fdt p) \<notin> open_fds p"
      by (simp add: open_fds_def)
    with hm assms clone_binary_tmpfile [OF False] show ?thesis
      by (auto simp: EIO_def split: if_splits)
  qed
qed

section \<open>The detector\<close>

text \<open>
  Claim C4, as the code has it. \<open>is_self_cloned\<close> returns \<^verbatim>\<open>-ENOTRECOVERABLE\<close>, never 0
  (not cloned), when \<^verbatim>\<open>/proc/self/exe\<close> cannot be opened. When it can, the result is 0 or
  1, and it is 1 (cloned) exactly when, with \<^verbatim>\<open>HAVE_MEMFD_CREATE\<close>, the seal mask queried
  on the executable is seal + shrink + grow + write, and, without it, \<^verbatim>\<open>fstat\<close> succeeds
  and reports a link count of zero.
\<close>

theorem is_self_cloned_verdict:
  "(fails p Open_exe_detect \<longrightarrow>
      fst (is_self_cloned hm p) = - ENOTRECOVERABLE \<and> fst (is_self_cloned hm p) \<noteq> 0) \<and>
   (\<not> fails p Open_exe_detect \<longrightarrow>
      (fst (is_self_cloned hm p) = 0 \<or> fst (is_self_cloned hm p) = 1) \<and>
      (fst (is_self_cloned True p) = 1 \<longleftrightarrow>
         seals (exe p) = Some (F_SEAL_SEAL OR F_SEAL_SHRINK OR F_SEAL_GROW OR F_SEAL_WRITE)) \<and>
      (fst (is_self_cloned False p) = 1 \<longleftrightarrow> \<not> fails p Fstat_exe \<and> nlink (exe p) = 0))"
proof (cases "fails p Open_exe_detect")
  case True
  then show ?thesis by (simp add: is_self_cloned_open_fails ENOTRECOVERABLE_def)
next
  case False
  then show ?thesis
    by (simp add: is_self_cloned_open_ok RUNC_MEMFD_SEALS_def [symmetric])
qed

theorem is_self_cloned_verdict_witness:
  "fst (is_self_cloned True (demo [Open_exe_detect])) = - ENOTRECOVERABLE \<and>
   fst (is_self_cloned True reexecuted) = 1 \<and>
   fst (is_self_cloned True (demo [])) = 0 \<and>
   fst (is_self_cloned False (unlinked [])) = 1 \<and>
   fst (is_self_cloned False (unlinked [Fstat_exe])) = 0 \<and>
   fst (is_self_cloned False (demo [])) = 0"
proof -
  have a: "fails (demo [Open_exe_detect]) Open_exe_detect"
    and b: "\<not> fails reexecuted Open_exe_detect"
    and c: "\<not> fails (demo []) Open_exe_detect" "\<not> fails (demo []) Fstat_exe"
    and u: "\<not> fails (unlinked []) Open_exe_detect" "\<not> fails (unlinked []) Fstat_exe"
    and v: "\<not> fails (unlinked [Fstat_exe]) Open_exe_detect" "fails (unlinked [Fstat_exe]) Fstat_exe"
    by (simp_all add: fails_def demo_def reexecuted_def unlinked_def)
  have d: "seals (exe reexecuted) = Some (F_SEAL_SEAL OR F_SEAL_SHRINK OR F_SEAL_GROW OR F_SEAL_WRITE)"
    "seals (exe (demo [])) = None" "nlink (exe (demo [])) = 1"
    "nlink (exe (unlinked [])) = 0" "nlink (exe (unlinked [Fstat_exe])) = 0"
    by (simp_all add: demo_def reexecuted_def unlinked_def RUNC_MEMFD_SEALS_def on_disk_def)
  from is_self_cloned_verdict [of "demo [Open_exe_detect]" True]
    is_self_cloned_verdict [of reexecuted True] is_self_cloned_verdict [of "demo []" True]
    is_self_cloned_verdict [of "unlinked []" False]
    is_self_cloned_verdict [of "unlinked [Fstat_exe]" False]
    is_self_cloned_verdict [of "demo []" False]
    a b c u v d
  show ?thesis by auto
qed

text \<open>
  Claim C4 as stated fails in the build without \<^verbatim>\<open>HAVE_MEMFD_CREATE\<close>: the executable
  opens and its link count is zero, \<^verbatim>\<open>fstat\<close> fails, and \<open>is_self_cloned\<close> returns 0 (not
  cloned), not 1.
\<close>

theorem is_self_cloned_fstat_hides_unlinked:
  "\<not> fails (unlinked [Fstat_exe]) Open_exe_detect \<and>
   nlink (exe (unlinked [Fstat_exe])) = 0 \<and>
   fst (is_self_cloned False (unlinked [Fstat_exe])) = 0 \<and>
   fst (is_self_cloned False (unlinked [Fstat_exe])) \<noteq> 1"
  by code_simp

section \<open>The splitter\<close>

text \<open>
  Claim C9. Whenever \<open>parse_xargs\<close> returns a positive count \<open>n\<close>, the array it leaves in
  \<^verbatim>\<open>*output\<close> has \<open>n + 1\<close> cells: \<open>n\<close> pointers into the data block, then NULL at
  index \<open>n\<close>.
\<close>

theorem parse_xargs_null_terminated:
  assumes "parse_xargs data data_length outp = Inr (n, out)" and "0 < n"
  shows "\<exists>arr. out = Some arr \<and> length arr = nat n + 1 \<and> arr ! nat n = Null \<and>
           (\<forall>i < nat n. \<exists>q. arr ! i = Ptr q \<and> q < buf_len data)"
proof -
  from assms obtain d where d: "data = Some d" and o: "outp = None"
    by (cases data; cases outp) (auto simp: parse_xargs_def)
  from parse_xargs_vector [OF assms [unfolded d o]]
  obtain ps where ps: "ps \<noteq> []" "n = int (length ps)" "out = Some (map Ptr ps @ [Null])"
    "\<forall>q\<in>set ps. q < length d"
    by blast
  have "(map Ptr ps @ [Null]) ! i = Ptr (ps ! i) \<and> ps ! i < length d" if "i < length ps" for i
    using that ps(4) by (simp add: nth_append)
  with ps(2,3) d show ?thesis by (simp add: nth_append buf_len_def)
qed

theorem parse_xargs_null_terminated_witness:
  "parse_xargs (Some blob6) 6 None = Inr (3, Some [Ptr 0, Ptr 2, Ptr 5, Null]) \<and>
   (\<exists>arr. Some [Ptr 0, Ptr 2, Ptr 5, Null] = Some arr \<and> length arr = nat 3 + 1 \<and>
          arr ! nat 3 = Null \<and> (\<forall>i < nat 3. \<exists>q. arr ! i = Ptr q \<and> q < buf_len (Some blob6)))"
proof -
  have run: "parse_xargs (Some blob6) 6 None = Inr (3, Some [Ptr 0, Ptr 2, Ptr 5, Null])"
    by code_simp
  have pos: "(0 :: int) < 3" by simp
  from parse_xargs_null_terminated [OF run pos] run show ?thesis by blast
qed

lemma count_list_terminated:
  "\<forall>e\<in>set es. NUL \<notin> set e \<Longrightarrow> count_list (concat (map (\<lambda>e. e @ [NUL]) es)) NUL = length es"
  by (induction es) (simp_all add: count_list_0_iff)

lemma cstr_no_NUL: "NUL \<notin> set (cstr d c)"
  by (cases c) (auto simp: cstr_def dest: set_takeWhileD)

lemma parse_xargs_unterminated_block:
  assumes "b \<noteq> []" and "NUL \<notin> set b"
  shows "parse_xargs (Some (b @ NUL # rest)) (int (length b)) None = Inr (1, Some [Ptr 0, Null])"
    and "entries (b @ NUL # rest) [Ptr 0, Null] = [b]"
proof -
  let ?d = "b @ NUL # rest"
  from assms(2) have tw: "takeWhile (\<lambda>c. c \<noteq> NUL) ?d = b"
    by (subst takeWhile_append2) auto
  then have sl: "strlen ?d 0 = Some (length b)" by (simp add: strlen_def Let_def)
  have "parse_loop ?d (int (length b)) 0 0 None = Inr (1, Some [Ptr 0, Garbage])"
    using assms(1) sl
    by (simp add: parse_loop.simps [of ?d "int (length b)" 0]
        parse_loop.simps [of ?d "int (length b)" "Suc (length b)"] must_realloc_def Let_def)
  then show "parse_xargs (Some ?d) (int (length b)) None = Inr (1, Some [Ptr 0, Null])"
    by (simp add: parse_xargs_def)
  from tw show "entries ?d [Ptr 0, Null] = [b]" by (simp add: entries_def cstr_def)
qed

lemma parse_xargs_terminated_block:
  assumes "d \<noteq> []" and "last d = NUL"
  shows "\<exists>es. split_entries d = Some es \<and>
           concat (map (\<lambda>e. e @ [NUL]) es) = d \<and>
           (\<forall>e\<in>set es. NUL \<notin> set e) \<and>
           length es = count_list d NUL \<and>
           (\<exists>arr. parse_xargs (Some d) (int (length d)) None = Inr (int (length es), Some arr))"
proof -
  from parse_loop_total [OF assms(2), of 0 0 None]
  obtain num o' where run: "parse_loop d (int (length d)) 0 0 None = Inr (num, o')" by force
  have "0 = length ([] :: nat list)" and "None = vec []" by (simp_all add: vec_def)
  from parse_loop_vec [OF this run]
  obtain ps where ps: "num = length ps" "o' = vec ps"
    "concat (map (\<lambda>q. cstr d (Ptr q) @ [NUL]) ps) = d"
    by auto
  from ps(3) assms(1) have ne: "ps \<noteq> []" by auto
  let ?es = "map (\<lambda>q. cstr d (Ptr q)) ps"
  from run ps(1,2) ne
  have px: "parse_xargs (Some d) (int (length d)) None = Inr (int (length ps), Some (map Ptr ps @ [Null]))"
    by (simp add: parse_xargs_def vec_def list_update_append)
  then have "split_entries d = Some ?es" by (simp add: split_entries_def)
  moreover from ps(3) have rt: "concat (map (\<lambda>e. e @ [NUL]) ?es) = d" by (simp add: comp_def)
  moreover have nn: "\<forall>e\<in>set ?es. NUL \<notin> set e" by (simp add: cstr_no_NUL)
  moreover from count_list_terminated [OF nn] rt have "length ?es = count_list d NUL" by simp
  moreover from px have "\<exists>arr. parse_xargs (Some d) (int (length d)) None = Inr (int (length ?es), Some arr)"
    by simp
  ultimately show ?thesis by blast
qed

text \<open>
  Claim C3, as the code has it. For every non-empty block whose last byte is NUL,
  \<open>parse_xargs\<close> yields one entry for each NUL byte of the block; no entry holds a NUL, and
  the entries, each followed by a NUL, joined in order are the block again. So every empty
  entry is kept, the trailing ones too. A non-empty blob without a NUL byte that is
  followed by a NUL byte in its buffer yields exactly one entry, the whole blob.
\<close>

theorem parse_xargs_split:
  "(d \<noteq> [] \<and> last d = NUL \<longrightarrow>
      (\<exists>es. split_entries d = Some es \<and>
            concat (map (\<lambda>e. e @ [NUL]) es) = d \<and>
            (\<forall>e\<in>set es. NUL \<notin> set e) \<and>
            length es = count_list d NUL \<and>
            (\<exists>arr. parse_xargs (Some d) (int (length d)) None = Inr (int (length es), Some arr)))) \<and>
   (b \<noteq> [] \<and> NUL \<notin> set b \<longrightarrow>
      parse_xargs (Some (b @ NUL # rest)) (int (length b)) None = Inr (1, Some [Ptr 0, Null]) \<and>
      entries (b @ NUL # rest) [Ptr 0, Null] = [b])"
  using parse_xargs_terminated_block [of d] parse_xargs_unterminated_block [of b rest]
  by blast

theorem parse_xargs_split_witness:
  "blob6 \<noteq> [] \<and> last blob6 = NUL \<and>
   (\<exists>es. split_entries blob6 = Some es \<and>
         concat (map (\<lambda>e. e @ [NUL]) es) = blob6 \<and>
         (\<forall>e\<in>set es. NUL \<notin> set e) \<and>
         length es = count_list blob6 NUL \<and>
         (\<exists>arr. parse_xargs (Some blob6) (int (length blob6)) None = Inr (int (length es), Some arr))) \<and>
   ''abc'' \<noteq> [] \<and> NUL \<notin> set ''abc'' \<and>
   parse_xargs (Some (''abc'' @ NUL # [])) (int (length ''abc'')) None = Inr (1, Some [Ptr 0, Null]) \<and>
   entries (''abc'' @ NUL # []) [Ptr 0, Null] = [''abc'']"
proof -
  have a: "blob6 \<noteq> [] \<and> last blob6 = NUL" by (simp add: blob6_def)
  have b: "''abc'' \<noteq> [] \<and> NUL \<notin> set ''abc''" by (simp add: NUL_def)
  from parse_xargs_split [of blob6 "''abc''" "[]"] a b show ?thesis by blast
qed

text \<open>
  Claim C3 as stated fails: the six bytes \<^verbatim>\<open>"a\0bb\0\0"\<close> split into the three entries
  \<^verbatim>\<open>"a"\<close>, \<^verbatim>\<open>"bb"\<close> and \<^verbatim>\<open>""\<close>, not into two; and on a block of the three bytes
  \<^verbatim>\<open>"abc"\<close> with nothing behind them \<^verbatim>\<open>strlen\<close> runs past the end of the block.
\<close>

theorem parse_xargs_keeps_trailing_empty_entry:
  "split_entries blob6 = Some [''a'', ''bb'', []] \<and> split_entries blob6 \<noteq> Some [''a'', ''bb''] \<and>
   parse_xargs (Some ''abc'') 3 None = Inl Overread \<and> split_entries ''abc'' = None"
  by code_simp

section \<open>The entry point\<close>

lemma is_self_cloned_values:
  "fst (is_self_cloned hm p) = - ENOTRECOVERABLE \<or> fst (is_self_cloned hm p) = 0 \<or>
   fst (is_self_cloned hm p) = 1"
  by (cases "fails p Open_exe_detect") (simp_all add: is_self_cloned_open_fails is_self_cloned_open_ok)

lemma is_self_cloned_pair: "is_self_cloned hm p = (fst (is_self_cloned hm p), invoked Detect p)"
  by (metis is_self_cloned_state prod.collapse)

lemma final_simps [simp]:
  "final (Returned r p) = p" "final (Replaced f a e p) = p" "final (Undefined u p) = p"
  by (simp_all add: final_def)

lemma ensure_stops_at_detect:
  assumes "0 < fst (is_self_cloned hm p) \<or> fst (is_self_cloned hm p) = - ENOTRECOVERABLE"
  shows "ensure_cloned_binary hm p = Returned (fst (is_self_cloned hm p)) (invoked Detect p)"
    and "trace hm p = [Detect]"
proof -
  show a: "ensure_cloned_binary hm p = Returned (fst (is_self_cloned hm p)) (invoked Detect p)"
    using assms by (subst ensure_cloned_binary_def, subst is_self_cloned_pair) simp
  show "trace hm p = [Detect]" by (simp add: trace_def a)
qed

lemma ensure_after_detect:
  assumes "fst (is_self_cloned hm p) = 0"
  shows "ensure_cloned_binary hm p =
           (case fetchve None None (invoked Detect p) of
              Inl (u, p2) \<Rightarrow> Undefined u p2
            | Inr (r, argv, envp, p2) \<Rightarrow>
                if r < 0 then Returned (- EINVAL) p2
                else
                  (let (execfd, p3) = clone_binary hm p2 in
                   if execfd < 0 then Returned (- EIO) p3
                   else
                     (case fexecve execfd argv envp p3 of
                        Inl replaced \<Rightarrow> replaced
                      | Inr p4 \<Rightarrow> Returned (- ENOEXEC) p4)))"
  using assms
  by (subst ensure_cloned_binary_def, subst is_self_cloned_pair) (simp add: ENOTRECOVERABLE_def)

lemma ensure_fetch_undefined:
  assumes "fst (is_self_cloned hm p) = 0" and "fetchve None None (invoked Detect p) = Inl (u, p2)"
  shows "ensure_cloned_binary hm p = Undefined u p2" and "trace hm p = [Detect, Fetch]"
proof -
  show a: "ensure_cloned_binary hm p = Undefined u p2"
    by (simp add: ensure_after_detect [OF assms(1)] assms(2))
  from fetchve_state(1) [OF assms(2)] show "trace hm p = [Detect, Fetch]"
    by (simp add: trace_def a)
qed

lemma ensure_fetch_fails:
  assumes "fst (is_self_cloned hm p) = 0"
    and "fetchve None None (invoked Detect p) = Inr (r, a, e, p2)" and "r < 0"
  shows "ensure_cloned_binary hm p = Returned (- EINVAL) p2" and "trace hm p = [Detect, Fetch]"
proof -
  show a: "ensure_cloned_binary hm p = Returned (- EINVAL) p2"
    by (simp add: ensure_after_detect [OF assms(1)] assms(2,3))
  from fetchve_state(2) [OF assms(2)] show "trace hm p = [Detect, Fetch]"
    by (simp add: trace_def a)
qed

lemma clone_binary_calls:
  "clone_binary hm p = (fd, p') \<Longrightarrow> calls p' = calls p @ [Clone]"
  by (drule clone_binary_result) auto

lemma ensure_clone_fails:
  assumes "fst (is_self_cloned hm p) = 0"
    and "fetchve None None (invoked Detect p) = Inr (r, a, e, p2)" and "0 \<le> r"
    and "clone_binary hm p2 = (fd, p3)" and "fd < 0"
  shows "ensure_cloned_binary hm p = Returned (- EIO) p3"
    and "trace hm p = [Detect, Fetch, Clone]"
proof -
  show a: "ensure_cloned_binary hm p = Returned (- EIO) p3"
    using assms(3,5) by (simp add: ensure_after_detect [OF assms(1)] assms(2,4))
  from fetchve_state(2) [OF assms(2)] clone_binary_calls [OF assms(4)]
  show "trace hm p = [Detect, Fetch, Clone]"
    by (simp add: trace_def a)
qed

lemma ensure_exec:
  assumes "fst (is_self_cloned hm p) = 0"
    and "fetchve None None (invoked Detect p) = Inr (r, a, e, p2)" and "0 \<le> r"
    and "clone_binary hm p2 = (fd, p3)" and "0 \<le> fd"
  shows "ensure_cloned_binary hm p =
           (case fexecve fd a e p3 of Inl replaced \<Rightarrow> replaced | Inr p4 \<Rightarrow> Returned (- ENOEXEC) p4)"
    and "trace hm p = [Detect, Fetch, Clone, Reexec]"
proof -
  show a: "ensure_cloned_binary hm p =
           (case fexecve fd a e p3 of Inl replaced \<Rightarrow> replaced | Inr p4 \<Rightarrow> Returned (- ENOEXEC) p4)"
    using assms(3,5) by (simp add: ensure_after_detect [OF assms(1)] assms(2,4))
  from fetchve_state(2) [OF assms(2)] clone_binary_calls [OF assms(4)]
  show "trace hm p = [Detect, Fetch, Clone, Reexec]"
    by (simp add: trace_def a fexecve_eq split: option.splits)
qed


lemma ensure_cases [case_names stop ub fetch clone exec]:
  obtains (stop) "0 < fst (is_self_cloned hm p) \<or> fst (is_self_cloned hm p) = - ENOTRECOVERABLE"
    | (ub) u p2 where "fst (is_self_cloned hm p) = 0"
        "fetchve None None (invoked Detect p) = Inl (u, p2)"
    | (fetch) r a e p2 where "fst (is_self_cloned hm p) = 0"
        "fetchve None None (invoked Detect p) = Inr (r, a, e, p2)" "r < 0"
    | (clone) r a e p2 fd p3 where "fst (is_self_cloned hm p) = 0"
        "fetchve None None (invoked Detect p) = Inr (r, a, e, p2)" "0 \<le> r"
        "clone_binary hm p2 = (fd, p3)" "fd < 0"
    | (exec) r a e p2 fd p3 where "fst (is_self_cloned hm p) = 0"
        "fetchve None None (invoked Detect p) = Inr (r, a, e, p2)" "0 \<le> r"
        "clone_binary hm p2 = (fd, p3)" "0 \<le> fd"
proof (cases "0 < fst (is_self_cloned hm p) \<or> fst (is_self_cloned hm p) = - ENOTRECOVERABLE")
  case True
  then show ?thesis by (rule stop)
next
  case False
  with is_self_cloned_values [of hm p] have d: "fst (is_self_cloned hm p) = 0" by auto
  show ?thesis
  proof (cases "fetchve None None (invoked Detect p)")
    case (Inl x)
    then show ?thesis using d ub by (cases x) auto
  next
    case (Inr y)
    then obtain r a e p2 where y: "fetchve None None (invoked Detect p) = Inr (r, a, e, p2)"
      by (cases y) auto
    obtain fd p3 where c: "clone_binary hm p2 = (fd, p3)" by (cases "clone_binary hm p2")
    show ?thesis
      using d y c fetch [OF d y] clone [OF d y _ c] exec [OF d y _ c]
      by (cases "r < 0"; cases "fd < 0") auto
  qed
qed

lemma xfer_invoked [simp]: "xfer (invoked c p) = xfer p"
  by (simp add: xfer_def)

lemma replaced_image:
  assumes "ensure_cloned_binary hm p = Replaced img av ev p'"
  shows "img = \<lparr>bytes = take (nat (xfer p)) (bytes (exe p)),
                 seals = (if hm then Some RUNC_MEMFD_SEALS else None), nlink = 0\<rparr>"
proof (cases rule: ensure_cases [of hm p])
  case stop
  with assms show ?thesis by (simp add: ensure_stops_at_detect(1) [OF stop])
next
  case ub
  with assms show ?thesis by (simp add: ensure_fetch_undefined(1) [OF ub])
next
  case fetch
  with assms show ?thesis by (simp add: ensure_fetch_fails(1) [OF fetch])
next
  case clone
  with assms show ?thesis by (simp add: ensure_clone_fails(1) [OF clone])
next
  case (exec r a e p2 fd p3)
  from fetchve_state(2) [OF exec(2)] have p2: "p2 = invoked Fetch (invoked Detect p)" by simp
  from clone_binary_result [OF exec(4)] exec(5)
  have "map_of (fdt p3) fd = Some \<lparr>bytes = take (nat (xfer p)) (bytes (exe p)),
                 seals = (if hm then Some RUNC_MEMFD_SEALS else None), nlink = 0\<rparr>"
    by (auto simp: p2)
  with assms show ?thesis
    by (auto simp: ensure_exec(1) [OF exec] fexecve_eq split: if_splits)
qed

lemma replaced_table:
  assumes "ensure_cloned_binary hm p = Replaced img av ev p'"
  shows "img = \<lparr>bytes = take (nat (xfer p)) (bytes (exe p)),
                 seals = (if hm then Some RUNC_MEMFD_SEALS else None), nlink = 0\<rparr>"
    and "\<exists>fd. fd \<notin> open_fds p \<and> fdt p' = (fd, img) # fdt p"
proof -
  show "img = \<lparr>bytes = take (nat (xfer p)) (bytes (exe p)),
                 seals = (if hm then Some RUNC_MEMFD_SEALS else None), nlink = 0\<rparr>"
    by (rule replaced_image [OF assms])
  show "\<exists>fd. fd \<notin> open_fds p \<and> fdt p' = (fd, img) # fdt p"
  proof (cases rule: ensure_cases [of hm p])
    case stop
    with assms show ?thesis by (simp add: ensure_stops_at_detect(1) [OF stop])
  next
    case ub
    with assms show ?thesis by (simp add: ensure_fetch_undefined(1) [OF ub])
  next
    case fetch
    with assms show ?thesis by (simp add: ensure_fetch_fails(1) [OF fetch])
  next
    case clone
    with assms show ?thesis by (simp add: ensure_clone_fails(1) [OF clone])
  next
    case (exec r a e p2 fd p3)
    from fetchve_state(2) [OF exec(2)] have p2: "p2 = invoked Fetch (invoked Detect p)" by simp
    from clone_binary_result [OF exec(4)] exec(5) obtain f where
      f: "fd \<notin> open_fds p" "fdt p3 = (fd, f) # fdt p"
      by (auto simp: p2 open_fds_def)
    with assms have "img = f" and "fdt p' = fdt p3"
      by (auto simp: ensure_exec(1) [OF exec] fexecve_eq split: if_splits)
    with f show ?thesis by auto
  qed
qed

lemma guard_descriptors:
  assumes "ensure_cloned_binary hm p = Returned r p'"
  shows "(r \<noteq> - ENOEXEC \<longrightarrow> fdt p' = fdt p) \<and>
         (r = - ENOEXEC \<longrightarrow> (\<exists>fd f. fd \<notin> open_fds p \<and> fdt p' = (fd, f) # fdt p))"
proof (cases rule: ensure_cases [of hm p])
  case stop
  with assms is_self_cloned_values [of hm p] show ?thesis
    by (auto simp: ensure_stops_at_detect(1) [OF stop] ENOTRECOVERABLE_def ENOEXEC_def)
next
  case ub
  with assms show ?thesis by (simp add: ensure_fetch_undefined(1) [OF ub])
next
  case fetch
  with assms fetchve_state(2) [OF fetch(2)] show ?thesis
    by (auto simp: ensure_fetch_fails(1) [OF fetch] EINVAL_def ENOEXEC_def)
next
  case clone
  with assms fetchve_state(2) [OF clone(2)] clone_binary_result [OF clone(4)] show ?thesis
    by (auto simp: ensure_clone_fails(1) [OF clone] EIO_def ENOEXEC_def)
next
  case (exec r a e p2 fd p3)
  from fetchve_state(2) [OF exec(2)] have p2: "p2 = invoked Fetch (invoked Detect p)" by simp
  from clone_binary_result [OF exec(4)] exec(5) obtain f where
    "fd \<notin> open_fds p" "fdt p3 = (fd, f) # fdt p"
    by (auto simp: p2 open_fds_def)
  with assms show ?thesis
    by (auto simp: ensure_exec(1) [OF exec] fexecve_eq split: if_splits)
qed





section \<open>A failed fstat\<close>

text \<open>
  Claim C10. Without \<^verbatim>\<open>HAVE_MEMFD_CREATE\<close>, when \<^verbatim>\<open>/proc/self/exe\<close> opens and
  \<^verbatim>\<open>fstat\<close> fails, \<open>is_self_cloned\<close> returns 0 (not cloned) and no error, and the entry
  point goes on to clone: its result is what the fetch, the clone and the image replacement
  make of the process the detection left. It never returns at the detection: a status it
  returns is \<^verbatim>\<open>-EINVAL\<close>, \<^verbatim>\<open>-EIO\<close> or \<^verbatim>\<open>-ENOEXEC\<close>, and an image it hands to
  \<^verbatim>\<open>fexecve\<close> is the copy \<open>clone_binary\<close> made of the executable. Its next operation is
  the fetch, and the clone follows whenever the fetch succeeds.
\<close>

theorem is_self_cloned_fstat_failure:
  assumes "\<not> fails p Open_exe_detect" and "fails p Fstat_exe"
  shows "is_self_cloned False p = (0, invoked Detect p) \<and>
         ensure_cloned_binary False p =
           (case fetchve None None (invoked Detect p) of
              Inl (u, p2) \<Rightarrow> Undefined u p2
            | Inr (r, argv, envp, p2) \<Rightarrow>
                if r < 0 then Returned (- EINVAL) p2
                else
                  (let (execfd, p3) = clone_binary False p2 in
                   if execfd < 0 then Returned (- EIO) p3
                   else
                     (case fexecve execfd argv envp p3 of
                        Inl replaced \<Rightarrow> replaced
                      | Inr p4 \<Rightarrow> Returned (- ENOEXEC) p4))) \<and>
         (\<forall>r p'. ensure_cloned_binary False p = Returned r p' \<longrightarrow>
            r = - EINVAL \<or> r = - EIO \<or> r = - ENOEXEC) \<and>
         (\<forall>img a e p'. ensure_cloned_binary False p = Replaced img a e p' \<longrightarrow>
            img = \<lparr>bytes = take (nat (xfer p)) (bytes (exe p)), seals = None, nlink = 0\<rparr> \<and>
            (\<exists>fd. fd \<notin> open_fds p \<and> fdt p' = (fd, img) # fdt p)) \<and>
         take 2 (trace False p) = [Detect, Fetch] \<and>
         (\<forall>a e p'. fetchve None None (invoked Detect p) = Inr (0, a, e, p') \<longrightarrow>
            take 3 (trace False p) = [Detect, Fetch, Clone])"
proof -
  from assms have d: "is_self_cloned False p = (0, invoked Detect p)"
    by (simp add: is_self_cloned_open_ok)
  then have d0: "fst (is_self_cloned False p) = 0" by simp
  note cont = ensure_after_detect [OF d0]
  have ret: "r = - EINVAL \<or> r = - EIO \<or> r = - ENOEXEC"
    if "ensure_cloned_binary False p = Returned r p'" for r p'
  proof (cases rule: ensure_cases [of False p])
    case stop
    with d0 show ?thesis by (simp add: ENOTRECOVERABLE_def)
  next
    case ub
    with that show ?thesis by (simp add: ensure_fetch_undefined(1) [OF ub])
  next
    case fetch
    with that show ?thesis by (simp add: ensure_fetch_fails(1) [OF fetch])
  next
    case clone
    with that show ?thesis by (simp add: ensure_clone_fails(1) [OF clone])
  next
    case (exec r' a e p2 fd p3)
    with that show ?thesis
      by (auto simp: ensure_exec(1) [OF exec] fexecve_eq split: if_splits option.splits)
  qed
  have img: "img = \<lparr>bytes = take (nat (xfer p)) (bytes (exe p)), seals = None, nlink = 0\<rparr> \<and>
            (\<exists>fd. fd \<notin> open_fds p \<and> fdt p' = (fd, img) # fdt p)"
    if "ensure_cloned_binary False p = Replaced img a e p'" for img a e p'
    using replaced_table [OF that] by simp
  have t2: "take 2 (trace False p) = [Detect, Fetch]"
  proof (cases rule: ensure_cases [of False p])
    case stop
    with d0 show ?thesis by (simp add: ENOTRECOVERABLE_def)
  next
    case ub
    then show ?thesis by (simp add: ensure_fetch_undefined(2) [OF ub])
  next
    case fetch
    then show ?thesis by (simp add: ensure_fetch_fails(2) [OF fetch])
  next
    case clone
    then show ?thesis by (simp add: ensure_clone_fails(2) [OF clone])
  next
    case exec
    then show ?thesis by (simp add: ensure_exec(2) [OF exec])
  qed
  have t3: "take 3 (trace False p) = [Detect, Fetch, Clone]"
    if f: "fetchve None None (invoked Detect p) = Inr (0, a, e, p')" for a e p'
  proof -
    obtain fd p3 where c: "clone_binary False p' = (fd, p3)" by (cases "clone_binary False p'")
    show ?thesis
    proof (cases "fd < 0")
      case True
      from ensure_clone_fails(2) [OF d0 f _ c True] show ?thesis by simp
    next
      case False
      then have "0 \<le> fd" by simp
      from ensure_exec(2) [OF d0 f _ c this] show ?thesis by simp
    qed
  qed
  from d cont ret img t2 t3 show ?thesis by blast
qed

theorem is_self_cloned_fstat_failure_witness:
  "\<not> fails (unlinked [Fstat_exe]) Open_exe_detect \<and> fails (unlinked [Fstat_exe]) Fstat_exe \<and>
   nlink (exe (unlinked [Fstat_exe])) = 0 \<and>
   fst (is_self_cloned False (unlinked [])) = 1 \<and>
   is_self_cloned False (unlinked [Fstat_exe]) = (0, invoked Detect (unlinked [Fstat_exe])) \<and>
   ensure_cloned_binary False (unlinked [Fstat_exe]) =
     Replaced \<lparr>bytes = ''ELF'', seals = None, nlink = 0\<rparr>
       (Some [Ptr 0, Ptr 5, Null]) (Some [Ptr 0, Null])
       (final (ensure_cloned_binary False (unlinked [Fstat_exe]))) \<and>
   \<lparr>bytes = ''ELF'', seals = None, nlink = 0\<rparr> =
     \<lparr>bytes = take (nat (xfer (unlinked [Fstat_exe]))) (bytes (exe (unlinked [Fstat_exe]))),
      seals = None, nlink = 0\<rparr> \<and>
   take 2 (trace False (unlinked [Fstat_exe])) = [Detect, Fetch] \<and>
   take 3 (trace False (unlinked [Fstat_exe])) = [Detect, Fetch, Clone]"
proof -
  let ?q = "unlinked [Fstat_exe]"
  have a: "\<not> fails ?q Open_exe_detect" and b: "fails ?q Fstat_exe"
    and n: "nlink (exe ?q) = 0"
    by (simp_all add: fails_def unlinked_def demo_def)
  have before: "fst (is_self_cloned False (unlinked [])) = 1" by code_simp
  have f: "fetchve None None (invoked Detect ?q) =
          Inr (0, Some [Ptr 0, Ptr 5, Null], Some [Ptr 0, Null],
               invoked Fetch (invoked Detect ?q))"
    by code_simp
  have o: "ensure_cloned_binary False ?q =
     Replaced \<lparr>bytes = ''ELF'', seals = None, nlink = 0\<rparr>
       (Some [Ptr 0, Ptr 5, Null]) (Some [Ptr 0, Null])
       (final (ensure_cloned_binary False ?q))"
    by code_simp
  note T = is_self_cloned_fstat_failure [OF a b]
  from T have "is_self_cloned False ?q = (0, invoked Detect ?q)" by blast
  moreover from T o have "\<lparr>bytes = ''ELF'', seals = None, nlink = 0\<rparr> =
     \<lparr>bytes = take (nat (xfer ?q)) (bytes (exe ?q)), seals = None, nlink = 0\<rparr>" by blast
  moreover from T have "take 2 (trace False ?q) = [Detect, Fetch]" by blast
  moreover from T f have "take 3 (trace False ?q) = [Detect, Fetch, Clone]" by blast
  ultimately show ?thesis using a b n before o by blast
qed

section \<open>The second run\<close>

text \<open>
  Claim C8. When a run of \<open>ensure_cloned_binary\<close> ends in the image replacement, the image
  carries, with \<^verbatim>\<open>HAVE_MEMFD_CREATE\<close>, exactly the seal mask \<open>RUNC_MEMFD_SEALS\<close> that
  \<open>is_self_cloned\<close> compares with (and has no link without it). So in every process that
  runs this image and can open \<^verbatim>\<open>/proc/self/exe\<close> (and, in the build without
  \<^verbatim>\<open>HAVE_MEMFD_CREATE\<close>, \<^verbatim>\<open>fstat\<close> it), the detection reports a clone and the entry
  point returns 1 at once: it invokes the detection only and leaves the descriptors as
  they were.
\<close>

theorem second_run_detects_clone:
  assumes "ensure_cloned_binary hm p = Replaced img av ev p'"
    and "exe q = img" and "\<not> fails q Open_exe_detect" and "hm \<or> \<not> fails q Fstat_exe"
  shows "(hm \<longrightarrow> seals img = Some RUNC_MEMFD_SEALS) \<and> (\<not> hm \<longrightarrow> nlink img = 0) \<and>
         fst (is_self_cloned hm q) = 1 \<and>
         ensure_cloned_binary hm q = Returned 1 (invoked Detect q) \<and>
         trace hm q = [Detect] \<and> fdt (invoked Detect q) = fdt q"
proof -
  note img = replaced_image [OF assms(1)]
  from assms(2,3,4) img have d: "fst (is_self_cloned hm q) = 1"
    by (cases hm) (simp_all add: is_self_cloned_open_ok)
  then have "0 < fst (is_self_cloned hm q) \<or> fst (is_self_cloned hm q) = - ENOTRECOVERABLE"
    by simp
  from ensure_stops_at_detect [OF this] d img show ?thesis by simp
qed

theorem second_run_detects_clone_witness:
  "ensure_cloned_binary True (demo []) =
     Replaced (exe reexecuted) (Some [Ptr 0, Ptr 5, Null]) (Some [Ptr 0, Null])
       (final (ensure_cloned_binary True (demo []))) \<and>
   seals (exe reexecuted) = Some RUNC_MEMFD_SEALS \<and>
   ensure_cloned_binary True reexecuted = Returned 1 (invoked Detect reexecuted) \<and>
   trace True reexecuted = [Detect]"
proof -
  have run: "ensure_cloned_binary True (demo []) =
     Replaced (exe reexecuted) (Some [Ptr 0, Ptr 5, Null]) (Some [Ptr 0, Null])
       (final (ensure_cloned_binary True (demo [])))"
    by code_simp
  have ok: "\<not> fails reexecuted Open_exe_detect" by (simp add: fails_def reexecuted_def demo_def)
  have mode: "True \<or> \<not> fails reexecuted Fstat_exe" by simp
  from second_run_detects_clone [OF run refl ok mode] run show ?thesis by simp
qed

section \<open>Descriptors after a failed run\<close>

text \<open>
  Claim C1 at the failing input: a process in which only \<^verbatim>\<open>fexecve\<close> fails. The call
  returns \<^verbatim>\<open>-ENOEXEC\<close> with descriptor 3, the sealed copy of the executable, still open;
  before the call descriptors 0, 1 and 2 were open. (By \<open>guard_descriptors\<close> every run that
  returns another status leaves the descriptor table as it was.)
\<close>

theorem fexecve_failure_leaks_descriptor:
  "ensure_cloned_binary True (demo [Fexecve]) =
     Returned (- ENOEXEC) (final (ensure_cloned_binary True (demo [Fexecve]))) \<and>
   open_fds (demo [Fexecve]) = {0, 1, 2} \<and>
   open_fds (final (ensure_cloned_binary True (demo [Fexecve]))) = {0, 1, 2, 3} \<and>
   map_of (fdt (final (ensure_cloned_binary True (demo [Fexecve])))) 3 =
     Some \<lparr>bytes = ''ELF'', seals = Some RUNC_MEMFD_SEALS, nlink = 0\<rparr>"
  by code_simp

section \<open>The copy\<close>

text \<open>
  Claim C2 at the failing input: an executable of two transfer chunks, 2 * 0x7FFFF000
  bytes. \<open>clone_binary\<close> succeeds and returns descriptor 3; the sealed file behind it
  holds the first 0x7FFFF000 bytes only.
\<close>

theorem clone_binary_truncates_large_executable:
  "fst (clone_binary True big) = 3 \<and>
   map_of (fdt (snd (clone_binary True big))) 3 =
     Some \<lparr>bytes = replicate 0x7FFFF000 (CHR 0x90), seals = Some RUNC_MEMFD_SEALS, nlink = 0\<rparr> \<and>
   bytes (exe big) = replicate (2 * 0x7FFFF000) (CHR 0x90) \<and>
   replicate 0x7FFFF000 (CHR 0x90) \<noteq> replicate (2 * 0x7FFFF000) (CHR 0x90)"
proof -
  have ok: "\<not> fails big Create_image" "\<not> fails big Open_exe_clone" "\<not> fails big Sendfile"
    "\<not> fails big Add_seals"
    by (simp_all add: fails_def big_def demo_def)
  have t: "fdt big = fdt (demo [])" by (simp add: big_def)
  have lf: "lowest_free (fdt (demo [])) = 3" by code_simp
  have src: "bytes (exe big) = replicate (2 * 0x7FFFF000) (CHR 0x90)"
    by (simp add: big_def on_disk_def)
  have lim: "xfer_limit big = None" by (simp add: big_def demo_def)
  have x: "nat (xfer big) = 0x7FFFF000"
    by (simp add: xfer_def src lim RUNC_SENDFILE_MAX_def)
  have "take (nat (xfer big)) (bytes (exe big)) = replicate 0x7FFFF000 (CHR 0x90)"
    by (simp only: x src take_replicate) simp
  with clone_binary_memfd [OF ok(1)] ok(2,3,4) t lf src show ?thesis
    by simp
qed

text \<open>The same for a short executable when the kernel stops the transfer after two bytes.\<close>

lemma clone_binary_short_copy:
  "fst (clone_binary True ((demo [])\<lparr>xfer_limit := Some 2\<rparr>)) = 3 \<and>
   map_of (fdt (snd (clone_binary True ((demo [])\<lparr>xfer_limit := Some 2\<rparr>)))) 3 =
     Some \<lparr>bytes = ''EL'', seals = Some RUNC_MEMFD_SEALS, nlink = 0\<rparr> \<and>
   bytes (exe ((demo [])\<lparr>xfer_limit := Some 2\<rparr>)) = ''ELF''"
  by code_simp

section \<open>The status of fetchve\<close>

lemma unreadable_read_file:
  assumes "fails p (Open_file f) \<or>
           (fails p (Read_file f k) \<and> 4096 * k < length (pseudo_file p f) + 4096)"
  shows "fst (read_file f p) = None"
proof (cases "fails p (Open_file f)")
  case True
  then show ?thesis by (simp add: read_file_eq)
next
  case False
  with assms have "fails p (Read_file f k)" and "4096 * k < length (pseudo_file p f) + 4096"
    by auto
  from read_loop_fault [OF this(1) _ _ this(2), of 0 None] False show ?thesis
    by (simp add: read_file_eq buf_len_def)
qed

text \<open>
  Claim C6, as the code has it. When one of the two pseudo-files cannot be opened, or a read
  that \<open>read_file\<close> issues on it fails (any of them, the read that meets the end of the file
  included), \<open>fetchve\<close> returns \<^verbatim>\<open>-EINVAL\<close>, which is not \<^verbatim>\<open>-EIO\<close>, and leaves both
  vectors NULL.
\<close>

theorem fetchve_read_failure:
  assumes "fails p (Open_file f) \<or>
           (fails p (Read_file f k) \<and> 4096 * k < length (pseudo_file p f) + 4096)"
  shows "fetchve None None p = Inr (- EINVAL, None, None, invoked Fetch p) \<and> - EINVAL \<noteq> - EIO"
proof -
  from unreadable_read_file [OF assms] have "fst (read_file f p) = None" .
  then have "fst (read_file Proc_self_cmdline p) = None \<or> fst (read_file Proc_self_environ p) = None"
    by (cases f) simp_all
  from fetchve_unread [OF this] show ?thesis by (simp add: EINVAL_def EIO_def)
qed

theorem fetchve_read_failure_witness:
  "(fails (demo [Read_file Proc_self_environ 1]) (Open_file Proc_self_environ) \<or>
    fails (demo [Read_file Proc_self_environ 1]) (Read_file Proc_self_environ 1) \<and>
    4096 * 1 < length (pseudo_file (demo [Read_file Proc_self_environ 1]) Proc_self_environ) + 4096) \<and>
   length (pseudo_file (demo [Read_file Proc_self_environ 1]) Proc_self_environ) = 4 \<and>
   fetchve None None (demo [Read_file Proc_self_environ 1]) =
     Inr (- EINVAL, None, None, invoked Fetch (demo [Read_file Proc_self_environ 1])) \<and>
   fails (demo [Open_file Proc_self_cmdline]) (Open_file Proc_self_cmdline) \<and>
   fetchve None None (demo [Open_file Proc_self_cmdline]) =
     Inr (- EINVAL, None, None, invoked Fetch (demo [Open_file Proc_self_cmdline])) \<and>
   - EINVAL \<noteq> - EIO"
proof -
  have h: "fails (demo [Read_file Proc_self_environ 1]) (Open_file Proc_self_environ) \<or>
    fails (demo [Read_file Proc_self_environ 1]) (Read_file Proc_self_environ 1) \<and>
    4096 * 1 < length (pseudo_file (demo [Read_file Proc_self_environ 1]) Proc_self_environ) + 4096"
    and l: "length (pseudo_file (demo [Read_file Proc_self_environ 1]) Proc_self_environ) = 4"
    by (simp_all add: fails_def demo_def pseudo_file_def)
  have g: "fails (demo [Open_file Proc_self_cmdline]) (Open_file Proc_self_cmdline)"
    by (simp add: fails_def demo_def)
  then have g': "fails (demo [Open_file Proc_self_cmdline]) (Open_file Proc_self_cmdline) \<or>
    fails (demo [Open_file Proc_self_cmdline]) (Read_file Proc_self_cmdline 0) \<and>
    4096 * 0 < length (pseudo_file (demo [Open_file Proc_self_cmdline]) Proc_self_cmdline) + 4096"
    by simp
  from fetchve_read_failure [OF h] fetchve_read_failure [OF g'] h l g show ?thesis by blast
qed

text \<open>
  Claim C6 as stated fails: with a command line that cannot be opened \<open>fetchve\<close> returns
  \<^verbatim>\<open>-EINVAL\<close>, the very result it gives for an empty command line, and not \<^verbatim>\<open>-EIO\<close>.
\<close>

theorem fetchve_unreadable_is_EINVAL:
  "fetchve None None (demo [Open_file Proc_self_cmdline]) =
     Inr (- EINVAL, None, None, invoked Fetch (demo [Open_file Proc_self_cmdline])) \<and>
   fetchve None None ((demo [])\<lparr>cmdline := []\<rparr>) =
     Inr (- EINVAL, None, None, invoked Fetch ((demo [])\<lparr>cmdline := []\<rparr>)) \<and>
   - EINVAL \<noteq> - EIO"
  by code_simp

text \<open>
  An empty source is rejected with \<^verbatim>\<open>-EINVAL\<close>, and a successful \<open>fetchve\<close> has built two
  vectors of at least one pointer each (\<open>fetchve_success\<close>).
\<close>

lemma fetchve_empty_source:
  assumes "cmdline p = [] \<or> environ p = []"
  shows "fetchve None None p = Inr (- EINVAL, None, None, invoked Fetch p)"
proof -
  from assms
  have "fst (read_file Proc_self_cmdline p) = None \<or> fst (read_file Proc_self_environ p) = None"
    by (auto simp: read_file_eq pseudo_file_def read_loop_empty)
  then show ?thesis by (rule fetchve_unread)
qed

text \<open>
  Claim C7 at the failing input: a command line of the three bytes \<^verbatim>\<open>"abc"\<close>, which holds
  no complete NUL-terminated entry. \<open>fetchve\<close> does not return \<^verbatim>\<open>-EINVAL\<close>:
  \<open>parse_xargs\<close> counts the bytes as an entry and \<^verbatim>\<open>strlen\<close> reads past the end of the
  block that \<open>read_file\<close> allocated.
\<close>

theorem fetchve_unterminated_overreads:
  "fetchve None None ((demo [])\<lparr>cmdline := ''abc''\<rparr>) =
     Inl (Overread, invoked Fetch ((demo [])\<lparr>cmdline := ''abc''\<rparr>)) \<and>
   ensure_cloned_binary True ((demo [])\<lparr>cmdline := ''abc''\<rparr>) =
     Undefined Overread (invoked Fetch (invoked Detect ((demo [])\<lparr>cmdline := ''abc''\<rparr>)))"
  by code_simp

end
